theory Spec2Isabelle
  imports Main "HOL-Library.Char_ord" "HOL-Library.List_Lexorder"
begin

section \<open>memkv: an in-memory key/value store (store.go)\<close>

text \<open>
  Go strings are byte sequences, compared byte-wise; they are modelled as \<open>string\<close>
  (lists of 8-bit characters) with the lexicographic order on lists over the order of
  character codes.
\<close>

subsection \<open>Data model\<close>

text \<open>
  Modelled from the spec: the record type KVPair, whose declaration (kvpair.go) is
  not part of store.go. The spec gives it two string fields, key and value; store.go
  builds it positionally as KVPair{key, value} and reads the fields Key and Value.
\<close>

record KVPair =
  Key :: string
  Value :: string

text \<open>
  The error values of store.go (ErrNotExist, ErrNoMatch) and the one error that
  filepath.Match returns (ErrBadPattern, the spec's InvalidPattern).
\<close>

datatype error = ErrNotExist | ErrNoMatch | ErrBadPattern

text \<open>A run-time panic of the Go program: slicing a string out of range.\<close>

datatype panic = SliceBoundsOutOfRange

text \<open>
  The field \<open>m map[string]KVPair\<close> of Store: a Go map is a finite partial function.
  The stores are those that \<open>New\<close> makes and \<open>Set\<close> and \<open>Del\<close> change; the zero value
  of Store, whose map is nil, is not a state of the model. The embedded RWMutex does
  not change what a call returns when calls do not overlap; it is modelled in the
  section on concurrent calls.
\<close>

type_synonym store = "string \<rightharpoonup> KVPair"

text \<open>
  A \<open>for _, kv := range s.m\<close> loop visits every entry once, in an order that Go
  leaves unspecified. The order of one loop is an explicit argument: a list of the
  keys of the map, without repetition.
\<close>

definition range_order :: "store \<Rightarrow> string list \<Rightarrow> bool" where
  "range_order s order = (distinct order \<and> set order = dom s)"

primrec range_map :: "store \<Rightarrow> string list \<Rightarrow> KVPair list" where
  "range_map s [] = []"
| "range_map s (k # ks) =
     (case s k of None \<Rightarrow> range_map s ks | Some kv \<Rightarrow> kv # range_map s ks)"

subsection \<open>Go library functions used by store.go\<close>

text \<open>strings.HasPrefix and strings.TrimPrefix.\<close>

definition HasPrefix :: "string \<Rightarrow> string \<Rightarrow> bool" where
  "HasPrefix s pre = (length pre \<le> length s \<and> take (length pre) s = pre)"

definition TrimPrefix :: "string \<Rightarrow> string \<Rightarrow> string" where
  "TrimPrefix s pre = (if HasPrefix s pre then drop (length pre) s else s)"

text \<open>
  The slice expression \<open>s[1:]\<close>: it panics when the string is empty (the low index 1
  exceeds the length 0).
\<close>

definition slice_from_1 :: "string \<Rightarrow> panic + string" where
  "slice_from_1 s = (if length s < 1 then Inl SliceBoundsOutOfRange else Inr (drop 1 s))"

text \<open>
  \<open>strings.SplitN(s, "/", 2)\<close>: the string itself when it has no separator, else
  the part before the first separator and the part after it.
\<close>

definition SplitN_2 :: "string \<Rightarrow> string list" where
  "SplitN_2 s =
     (if CHR ''/'' \<in> set s
      then [takeWhile (\<lambda>c. c \<noteq> CHR ''/'') s, tl (dropWhile (\<lambda>c. c \<noteq> CHR ''/'') s)]
      else [s])"

text \<open>\<open>sort.Strings\<close> sorts a slice of strings in increasing byte-wise order.\<close>

definition sort_Strings :: "string list \<Rightarrow> string list" where
  "sort_Strings vs = sort vs"

text \<open>
  Modelled from the spec: \<open>sort.Sort(ks)\<close> on the slice type KVPairs, whose methods
  Len, Less and Swap are declared in kvpair.go and not in store.go. The spec says
  that GetAll sorts the records by key in ascending byte-wise order, so Less
  compares the keys. Go's sort is not stable; the model is the stable insertion
  sort of the library, and lemma \<open>sorted_by_key_unique\<close> below shows that on records
  with distinct keys every sorting algorithm returns the same list.
\<close>

definition sort_Sort :: "KVPair list \<Rightarrow> KVPair list" where
  "sort_Sort ks = sort_key Key ks"

subsection \<open>filepath.Match (Go standard library, Unix)\<close>

text \<open>
  GetAll delegates matching to \<open>filepath.Match\<close> of the Go standard library, with
  separator \<open>/\<close> and backslash as the escape character. The functions below follow
  path/filepath/match.go and unicode/utf8 as they are since Go 1.16: \<open>Match\<close>,
  \<open>scanChunk\<close>, \<open>matchChunk\<close>, \<open>getEsc\<close> and \<open>utf8.DecodeRuneInString\<close>. A malformed
  pattern is reported only when matching reaches its malformed chunk: \<open>matchChunk\<close>
  checks a whole chunk even after a mismatch, but \<open>Match\<close> returns at the first chunk
  that does not match and never looks at the chunks after it.
\<close>

definition Separator :: char where
  "Separator = CHR ''/''"

definition backslash :: char where
  "backslash = CHR 0x5C"

definition RuneError :: int where
  "RuneError = 0xFFFD"

text \<open>
  \<open>utf8.DecodeRuneInString\<close> returns the first code point of the string (a \<open>rune\<close>,
  modelled as an integer) and its width in bytes; \<open>(RuneError, 0)\<close> on the empty
  string and \<open>(RuneError, 1)\<close> on an invalid encoding. The masks \<open>s0 & 0x1F\<close>,
  \<open>s1 & 0x3F\<close> and the shifts of the source are written with \<open>mod\<close> and
  multiplication.
\<close>

definition DecodeRuneInString :: "string \<Rightarrow> int \<times> nat" where
  "DecodeRuneInString s =
     (case s of
        [] \<Rightarrow> (RuneError, 0)
      | c0 # cs \<Rightarrow>
          let s0 = of_char c0 :: int in
          if s0 < 0x80 then (s0, 1)
          else if s0 < 0xC2 \<or> 0xF4 < s0 then (RuneError, 1)
          else
            let sz = (if s0 < 0xE0 then 2 else if s0 < 0xF0 then 3 else 4 :: nat);
                lo = (if s0 = 0xE0 then 0xA0 else if s0 = 0xF0 then 0x90 else 0x80 :: int);
                hi = (if s0 = 0xED then 0x9F else if s0 = 0xF4 then 0x8F else 0xBF :: int)
            in
              if length s < sz then (RuneError, 1)
              else
                let s1 = of_char (s ! 1) :: int in
                if s1 < lo \<or> hi < s1 then (RuneError, 1)
                else if sz \<le> 2 then ((s0 mod 0x20) * 0x40 + s1 mod 0x40, 2)
                else
                  let s2 = of_char (s ! 2) :: int in
                  if s2 < 0x80 \<or> 0xBF < s2 then (RuneError, 1)
                  else if sz \<le> 3 then
                    ((s0 mod 0x10) * 0x1000 + (s1 mod 0x40) * 0x40 + s2 mod 0x40, 3)
                  else
                    let s3 = of_char (s ! 3) :: int in
                    if s3 < 0x80 \<or> 0xBF < s3 then (RuneError, 1)
                    else ((s0 mod 8) * 0x40000 + (s1 mod 0x40) * 0x1000
                            + (s2 mod 0x40) * 0x40 + s3 mod 0x40, 4))"

text \<open>
  \<open>getEsc\<close> reads one possibly escaped character of a character class. It fails on
  an empty chunk, on a leading \<open>-\<close> or \<open>]\<close>, on a lone backslash, on invalid UTF-8
  and when nothing follows the character.
\<close>

definition getEsc :: "string \<Rightarrow> error + int \<times> string" where
  "getEsc chunk =
     (if chunk = [] \<or> hd chunk = CHR ''-'' \<or> hd chunk = CHR '']'' then Inl ErrBadPattern
      else
        let chunk1 = (if hd chunk = backslash then tl chunk else chunk) in
        if chunk1 = [] then Inl ErrBadPattern
        else
          let (r, n) = DecodeRuneInString chunk1;
              nchunk = drop n chunk1
          in if (r = RuneError \<and> n = 1) \<or> nchunk = [] then Inl ErrBadPattern
             else Inr (r, nchunk))"

lemma DecodeRuneInString_size:
  "s \<noteq> [] \<Longrightarrow> 1 \<le> snd (DecodeRuneInString s)"
  by (cases s) (simp_all add: DecodeRuneInString_def Let_def)

lemma getEsc_shorter:
  "getEsc chunk = Inr (r, nchunk) \<Longrightarrow> length nchunk < length chunk"
  using DecodeRuneInString_size [of chunk] DecodeRuneInString_size [of "tl chunk"]
  by (auto simp: getEsc_def Let_def split: if_splits prod.splits)

text \<open>
  The body of the loop of \<open>matchChunk\<close> over the ranges of a character class: it
  reads one range \<open>lo\<close> or \<open>lo-hi\<close> and tells whether the character \<open>r\<close> of the name
  lies in it.
\<close>

definition parse_range :: "int \<Rightarrow> string \<Rightarrow> error + bool \<times> string" where
  "parse_range r chunk =
     (case getEsc chunk of
        Inl e \<Rightarrow> Inl e
      | Inr (lo, chunk1) \<Rightarrow>
          if hd chunk1 = CHR ''-'' then
            (case getEsc (tl chunk1) of
               Inl e \<Rightarrow> Inl e
             | Inr (hi, chunk2) \<Rightarrow> Inr (lo \<le> r \<and> r \<le> hi, chunk2))
          else Inr (lo \<le> r \<and> r \<le> lo, chunk1))"

lemma parse_range_shorter:
  "parse_range r chunk = Inr (b, chunk') \<Longrightarrow> length chunk' < length chunk"
  by (fastforce simp: parse_range_def split: sum.splits prod.splits if_splits
      dest: getEsc_shorter)

text \<open>
  The loop over the ranges, entered after the opening bracket and the optional \<open>^\<close>:
  \<open>match\<close> tells whether a range has contained \<open>r\<close>, \<open>nrange\<close> is the number of ranges
  read. A closing bracket ends the class once a range has been read. The loop
  returns the chunk after the closing bracket.
\<close>

function parse_ranges :: "int \<Rightarrow> string \<Rightarrow> bool \<Rightarrow> nat \<Rightarrow> error + string \<times> bool" where
  "parse_ranges r chunk match nrange =
     (if chunk \<noteq> [] \<and> hd chunk = CHR '']'' \<and> 0 < nrange then Inr (tl chunk, match)
      else
        case parse_range r chunk of
          Inl e \<Rightarrow> Inl e
        | Inr (inside, chunk') \<Rightarrow> parse_ranges r chunk' (match \<or> inside) (nrange + 1))"
  by pat_completeness auto
termination
  by (relation "measure (\<lambda>(r, chunk, match, nrange). length chunk)")
    (auto dest: parse_range_shorter)

declare parse_ranges.simps [simp del]

lemma parse_ranges_shorter:
  "parse_ranges r chunk match nrange = Inr (chunk', match') \<Longrightarrow> length chunk' < length chunk"
proof (induction r chunk match nrange rule: parse_ranges.induct)
  case (1 r chunk match nrange)
  from "1.prems" "1.IH" show ?case
    by (subst (asm) parse_ranges.simps [of r chunk])
      (fastforce split: if_splits sum.splits prod.splits dest: parse_range_shorter)
qed

text \<open>
  The loop of \<open>matchChunk\<close> consumes one item of the chunk per iteration: a character
  class, \<open>?\<close>, an escaped or a plain character. Once the match has failed the loop
  goes on over the chunk to check that it is well formed, no longer reading \<open>s\<close>.
  \<open>matchChunk_class\<close> is the case of a character class, entered with the chunk \<open>cs\<close>
  after the opening bracket; \<open>matchChunk_step\<close> is the whole body of the loop. The
  result is the new \<open>(failed, chunk, s)\<close>, or the error of a malformed chunk.
\<close>

definition matchChunk_class :: "bool \<Rightarrow> string \<Rightarrow> string \<Rightarrow> error + bool \<times> string \<times> string" where
  "matchChunk_class failed cs s =
     (let r = (if failed then 0 else fst (DecodeRuneInString s));
          s1 = (if failed then s else drop (snd (DecodeRuneInString s)) s);
          negated = (cs \<noteq> [] \<and> hd cs = CHR ''^'');
          chunk1 = (if negated then tl cs else cs)
      in
        case parse_ranges r chunk1 False 0 of
          Inl e \<Rightarrow> Inl e
        | Inr (chunk2, match) \<Rightarrow> Inr (failed \<or> match = negated, chunk2, s1))"

definition matchChunk_step :: "bool \<Rightarrow> string \<Rightarrow> string \<Rightarrow> error + bool \<times> string \<times> string" where
  "matchChunk_step failed0 chunk s =
     (let failed = (failed0 \<or> s = []); c = hd chunk; cs = tl chunk in
      if c = CHR ''['' then matchChunk_class failed cs s
      else if c = CHR ''?'' then
        (if failed then Inr (failed, cs, s)
         else Inr (hd s = Separator, cs, drop (snd (DecodeRuneInString s)) s))
      else if c = backslash then
        (if cs = [] then Inl ErrBadPattern
         else if failed then Inr (failed, tl cs, s)
         else Inr (hd cs \<noteq> hd s, tl cs, tl s))
      else
        (if failed then Inr (failed, cs, s)
         else Inr (c \<noteq> hd s, cs, tl s)))"

lemma matchChunk_class_shorter:
  "matchChunk_class failed cs s = Inr (failed', chunk', s') \<Longrightarrow> length chunk' < Suc (length cs)"
  by (fastforce simp: matchChunk_class_def Let_def split: if_splits sum.splits prod.splits
      dest: parse_ranges_shorter)

lemma matchChunk_step_shorter:
  "chunk \<noteq> [] \<Longrightarrow> matchChunk_step failed chunk s = Inr (failed', chunk', s')
    \<Longrightarrow> length chunk' < length chunk"
  by (cases chunk)
    (auto simp: matchChunk_step_def Let_def split: if_splits
      dest: matchChunk_class_shorter)

text \<open>
  \<open>matchChunk\<close> checks whether the chunk (literals, \<open>?\<close>, classes) matches the
  beginning of \<open>s\<close>; the result is the triple \<open>(rest, ok, err)\<close> of the source, with
  \<open>rest\<close> the remainder of \<open>s\<close> after the match.
\<close>

function matchChunk_loop :: "bool \<Rightarrow> string \<Rightarrow> string \<Rightarrow> string \<times> bool \<times> error option" where
  "matchChunk_loop failed chunk s =
     (if chunk = [] then (if failed then ([], False, None) else (s, True, None))
      else
        case matchChunk_step failed chunk s of
          Inl e \<Rightarrow> ([], False, Some e)
        | Inr (failed', chunk', s') \<Rightarrow> matchChunk_loop failed' chunk' s')"
  by pat_completeness auto
termination
  by (relation "measure (\<lambda>(failed, chunk, s). length chunk)")
    (auto dest: matchChunk_step_shorter)

declare matchChunk_loop.simps [simp del]

definition matchChunk :: "string \<Rightarrow> string \<Rightarrow> string \<times> bool \<times> error option" where
  "matchChunk chunk s = matchChunk_loop False chunk s"

text \<open>
  \<open>scanChunk\<close> splits off the next chunk of the pattern: it drops leading stars
  (\<open>star\<close> tells whether there was one) and scans up to the next star outside a
  character class. \<open>scan\<close> is the index at which that scan stops.
\<close>

fun scan :: "bool \<Rightarrow> string \<Rightarrow> nat" where
  "scan inrange [] = 0"
| "scan inrange [c] = (if c = CHR ''*'' \<and> \<not> inrange then 0 else 1)"
| "scan inrange (c # d # ds) =
     (if c = backslash then 2 + scan inrange ds
      else if c = CHR ''['' then 1 + scan True (d # ds)
      else if c = CHR '']'' then 1 + scan False (d # ds)
      else if c = CHR ''*'' \<and> \<not> inrange then 0
      else 1 + scan inrange (d # ds))"

definition scanChunk :: "string \<Rightarrow> bool \<times> string \<times> string" where
  "scanChunk pattern =
     (let star = (pattern \<noteq> [] \<and> hd pattern = CHR ''*'');
          pattern1 = dropWhile (\<lambda>c. c = CHR ''*'') pattern;
          i = scan False pattern1
      in (star, take i pattern1, drop i pattern1))"

lemma scan_pos: "p \<noteq> [] \<Longrightarrow> hd p \<noteq> CHR ''*'' \<Longrightarrow> 0 < scan inrange p"
  by (induction inrange p rule: scan.induct) auto

lemma scanChunk_shorter:
  assumes "pattern \<noteq> []" and "scanChunk pattern = (star, chunk, rest)"
  shows "length rest < length pattern"
proof (cases "hd pattern = CHR ''*''")
  case True
  with assms(1) have "length (dropWhile (\<lambda>c. c = CHR ''*'') pattern) < length pattern"
    by (cases pattern) (auto simp: le_imp_less_Suc length_dropWhile_le)
  with assms(2) show ?thesis
    by (auto simp: scanChunk_def Let_def)
next
  case False
  with assms(1) have dw: "dropWhile (\<lambda>c. c = CHR ''*'') pattern = pattern"
    by (cases pattern) auto
  from scan_pos [OF assms(1) False] have "0 < scan False pattern" .
  with assms dw show ?thesis
    by (auto simp: scanChunk_def Let_def)
qed

text \<open>
  The loop of \<open>Match\<close> that tries the chunk after skipping \<open>i + 1\<close> bytes of the name,
  never skipping a separator. \<open>final\<close> says that no pattern is left after the chunk.
  \<open>Inr (Some t)\<close>: the chunk matched and \<open>t\<close> is what is left of the name;
  \<open>Inr None\<close>: the loop ended without a match; \<open>Inl e\<close>: the chunk is malformed.
\<close>

fun star_loop :: "string \<Rightarrow> bool \<Rightarrow> string \<Rightarrow> error + string option" where
  "star_loop chunk final [] = Inr None"
| "star_loop chunk final (c # cs) =
     (if c = Separator then Inr None
      else
        case matchChunk chunk cs of
          (t, ok, err) \<Rightarrow>
            if ok then (if final \<and> t \<noteq> [] then star_loop chunk final cs else Inr (Some t))
            else (case err of Some e \<Rightarrow> Inl e | None \<Rightarrow> star_loop chunk final cs))"

text \<open>
  One iteration of the main loop of \<open>Match\<close>, after \<open>scanChunk\<close> has split the
  pattern into \<open>star\<close>, \<open>chunk\<close> and \<open>rest\<close>: \<open>Inl res\<close> when \<open>Match\<close> returns \<open>res\<close>,
  \<open>Inr t\<close> when the loop continues with \<open>rest\<close> on the name \<open>t\<close>.
\<close>

definition Match_step :: "bool \<Rightarrow> string \<Rightarrow> string \<Rightarrow> string \<Rightarrow> bool \<times> error option + string" where
  "Match_step star chunk rest name =
     (if star \<and> chunk = [] then Inl (Separator \<notin> set name, None)
      else
        case matchChunk chunk name of
          (t, ok, err) \<Rightarrow>
            if ok \<and> (t = [] \<or> rest \<noteq> []) then Inr t
            else
              case err of
                Some e \<Rightarrow> Inl (False, Some e)
              | None \<Rightarrow>
                  (case (if star then star_loop chunk (rest = []) name else Inr None) of
                     Inl e \<Rightarrow> Inl (False, Some e)
                   | Inr (Some t') \<Rightarrow> Inr t'
                   | Inr None \<Rightarrow> Inl (False, None)))"

function Match :: "string \<Rightarrow> string \<Rightarrow> bool \<times> error option" where
  "Match pattern name =
     (if pattern = [] then (name = [], None)
      else
        case scanChunk pattern of
          (star, chunk, rest) \<Rightarrow>
            (case Match_step star chunk rest name of
               Inl res \<Rightarrow> res
             | Inr t \<Rightarrow> Match rest t))"
  by pat_completeness auto
termination
  by (relation "measure (\<lambda>(pattern, name). length pattern)")
    (auto dest: scanChunk_shorter [OF _ sym])

declare Match.simps [simp del]

subsection \<open>The operations of Store\<close>

definition New :: store where
  "New = Map.empty"

definition Del :: "store \<Rightarrow> string \<Rightarrow> store" where
  "Del s key = s(key := None)"

text \<open>
  \<open>Get\<close> returns the pair \<open>(kv, err)\<close> of the source; for an absent key \<open>kv\<close> is the
  zero record that the map lookup yields.
\<close>

definition Get :: "store \<Rightarrow> string \<Rightarrow> KVPair \<times> error option" where
  "Get s key =
     (case s key of
        None \<Rightarrow> (\<lparr>Key = [], Value = []\<rparr>, Some ErrNotExist)
      | Some kv \<Rightarrow> (kv, None))"

definition GetValue :: "store \<Rightarrow> string \<Rightarrow> string \<times> error option" where
  "GetValue s key =
     (case Get s key of
        (kv, Some err) \<Rightarrow> ([], Some err)
      | (kv, None) \<Rightarrow> (Value kv, None))"

text \<open>
  A slice result is a \<open>list option\<close>: \<open>None\<close> is the nil slice, \<open>Some xs\<close> an allocated
  slice with elements \<open>xs\<close>. The loop of \<open>GetAll\<close> returns at the first error of
  \<open>Match\<close>.
\<close>

fun GetAll_loop :: "string \<Rightarrow> KVPair list \<Rightarrow> KVPair list \<Rightarrow> error + KVPair list" where
  "GetAll_loop pattern [] ks = Inr ks"
| "GetAll_loop pattern (kv # kvs) ks =
     (case Match pattern (Key kv) of
        (m, Some err) \<Rightarrow> Inl err
      | (m, None) \<Rightarrow> GetAll_loop pattern kvs (if m then ks @ [kv] else ks))"

definition GetAll :: "store \<Rightarrow> string list \<Rightarrow> string \<Rightarrow> KVPair list option \<times> error option" where
  "GetAll s order pattern =
     (case GetAll_loop pattern (range_map s order) [] of
        Inl err \<Rightarrow> (None, Some err)
      | Inr ks \<Rightarrow>
          if length ks = 0 then (None, Some ErrNoMatch)
          else (Some (sort_Sort ks), None))"

definition GetAllValues :: "store \<Rightarrow> string list \<Rightarrow> string \<Rightarrow> string list option \<times> error option" where
  "GetAllValues s order pattern =
     (let vs = [] in
      case GetAll s order pattern of
        (ks, Some err) \<Rightarrow> (Some vs, Some err)
      | (ks, None) \<Rightarrow> (Some (vs @ map Value (case ks of None \<Rightarrow> [] | Some l \<Rightarrow> l)), None))"

text \<open>
  \<open>List\<close> and \<open>ListDir\<close> collect first segments in a local \<open>map[string]bool\<close> that
  only ever stores \<open>true\<close>, a set of strings; its keys are then appended to \<open>vs\<close> in
  the unspecified order of the map and sorted, which gives the sorted list of the
  set. The expression \<open>strippedKey[1:]\<close> panics on an empty \<open>strippedKey\<close>.
\<close>

fun List_loop :: "string \<Rightarrow> KVPair list \<Rightarrow> string set \<Rightarrow> panic + string set" where
  "List_loop path [] m = Inr m"
| "List_loop path (kv # kvs) m =
     (if HasPrefix (Key kv) path then
        let strippedKey = TrimPrefix (Key kv) path in
        case slice_from_1 strippedKey of
          Inl p \<Rightarrow> Inl p
        | Inr rest \<Rightarrow> List_loop path kvs (insert (hd (SplitN_2 rest)) m)
      else List_loop path kvs m)"

definition List :: "store \<Rightarrow> string list \<Rightarrow> string \<Rightarrow> panic + string list" where
  "List s order path =
     (case List_loop path (range_map s order) {} of
        Inl p \<Rightarrow> Inl p
      | Inr m \<Rightarrow> Inr (sort_Strings (sorted_list_of_set m)))"

fun ListDir_loop :: "string \<Rightarrow> KVPair list \<Rightarrow> string set \<Rightarrow> panic + string set" where
  "ListDir_loop path [] m = Inr m"
| "ListDir_loop path (kv # kvs) m =
     (if HasPrefix (Key kv) path then
        let strippedKey = TrimPrefix (Key kv) path in
        case slice_from_1 strippedKey of
          Inl p \<Rightarrow> Inl p
        | Inr rest \<Rightarrow>
            let items = SplitN_2 rest in
            if length items < 2 then ListDir_loop path kvs m
            else ListDir_loop path kvs (insert (hd items) m)
      else ListDir_loop path kvs m)"

definition ListDir :: "store \<Rightarrow> string list \<Rightarrow> string \<Rightarrow> panic + string list" where
  "ListDir s order path =
     (case ListDir_loop path (range_map s order) {} of
        Inl p \<Rightarrow> Inl p
      | Inr m \<Rightarrow> Inr (sort_Strings (sorted_list_of_set m)))"

definition Set :: "store \<Rightarrow> string \<Rightarrow> string \<Rightarrow> store" where
  "Set s key val = s(key \<mapsto> \<lparr>Key = key, Value = val\<rparr>)"

text \<open>
  The invariant of the data model: every entry is stored under the key that its
  record carries.
\<close>

definition store_inv :: "store \<Rightarrow> bool" where
  "store_inv s = (\<forall>k kv. s k = Some kv \<longrightarrow> Key kv = k)"

text \<open>The states a caller can produce: \<open>New\<close>, then any sequence of \<open>Set\<close> and \<open>Del\<close>.\<close>

inductive reachable :: "store \<Rightarrow> bool" where
  reachable_New: "reachable New"
| reachable_Set: "reachable s \<Longrightarrow> reachable (Set s key val)"
| reachable_Del: "reachable s \<Longrightarrow> reachable (Del s key)"

section \<open>Properties of the matcher\<close>

text \<open>The only error that \<open>Match\<close> returns is ErrBadPattern, and then it reports no match.\<close>

lemma getEsc_error: "getEsc chunk = Inl e \<Longrightarrow> e = ErrBadPattern"
  by (auto simp: getEsc_def Let_def split: if_splits prod.splits)

lemma parse_range_error: "parse_range r chunk = Inl e \<Longrightarrow> e = ErrBadPattern"
  by (auto simp: parse_range_def split: sum.splits prod.splits if_splits dest: getEsc_error)

lemma parse_ranges_error: "parse_ranges r chunk match nrange = Inl e \<Longrightarrow> e = ErrBadPattern"
proof (induction r chunk match nrange rule: parse_ranges.induct)
  case (1 r chunk match nrange)
  from "1.prems" "1.IH" show ?case
    by (subst (asm) parse_ranges.simps [of r chunk])
      (auto split: if_splits sum.splits prod.splits dest: parse_range_error)
qed

lemma matchChunk_class_error: "matchChunk_class failed cs s = Inl e \<Longrightarrow> e = ErrBadPattern"
  by (auto simp: matchChunk_class_def Let_def split: sum.splits prod.splits if_splits
      dest: parse_ranges_error)

lemma matchChunk_step_error: "matchChunk_step failed chunk s = Inl e \<Longrightarrow> e = ErrBadPattern"
  by (auto simp: matchChunk_step_def Let_def split: if_splits dest: matchChunk_class_error)

lemma matchChunk_loop_error:
  "matchChunk_loop failed chunk s = (t, ok, Some e) \<Longrightarrow> e = ErrBadPattern \<and> \<not> ok"
proof (induction failed chunk s rule: matchChunk_loop.induct)
  case (1 failed chunk s)
  from "1.prems" "1.IH" show ?case
    by (subst (asm) matchChunk_loop.simps [of failed chunk s])
      (fastforce split: if_splits sum.splits prod.splits dest: matchChunk_step_error)
qed

lemma matchChunk_error: "matchChunk chunk s = (t, ok, Some e) \<Longrightarrow> e = ErrBadPattern \<and> \<not> ok"
  unfolding matchChunk_def by (rule matchChunk_loop_error)

lemma star_loop_error: "star_loop chunk final name = Inl e \<Longrightarrow> e = ErrBadPattern"
  by (induction chunk final name rule: star_loop.induct)
    (auto split: if_splits prod.splits option.splits dest: matchChunk_error)

lemma Match_step_error:
  "Match_step star chunk rest name = Inl (b, Some e) \<Longrightarrow> e = ErrBadPattern \<and> \<not> b"
  by (auto simp: Match_step_def split: if_splits prod.splits option.splits sum.splits
      dest: matchChunk_error star_loop_error)

lemma Match_error: "Match pattern name = (b, Some e) \<Longrightarrow> e = ErrBadPattern \<and> \<not> b"
proof (induction pattern name rule: Match.induct)
  case (1 pattern name)
  from "1.prems" "1.IH" show ?case
    by (subst (asm) Match.simps [of pattern name])
      (auto split: if_splits prod.splits sum.splits dest: Match_step_error)
qed




lemma Match_next:
  "pattern \<noteq> [] \<Longrightarrow> scanChunk pattern = (star, chunk, rest) \<Longrightarrow>
   Match pattern name =
     (case Match_step star chunk rest name of
        Inl res \<Rightarrow> res
      | Inr t \<Rightarrow> Match rest t)"
  by (subst Match.simps) simp

lemma parse_ranges_stop:
  "chunk \<noteq> [] \<Longrightarrow> hd chunk = CHR '']'' \<Longrightarrow> 0 < nrange \<Longrightarrow>
   parse_ranges r chunk match nrange = Inr (tl chunk, match)"
  by (subst parse_ranges.simps) simp


lemma scanChunk_trailing_star:
  assumes "scanChunk pattern = (star, [], rest)"
  shows "rest = []"
proof -
  define p where "p = dropWhile (\<lambda>c. c = CHR ''*'') pattern"
  from assms have sc: "take (scan False p) p = []" "rest = drop (scan False p) p"
    unfolding scanChunk_def Let_def p_def [symmetric] by simp_all
  have "p = []"
  proof (rule ccontr)
    assume ne: "p \<noteq> []"
    have "hd p \<noteq> CHR ''*''"
      using ne hd_dropWhile [of "\<lambda>c. c = CHR ''*''" pattern] unfolding p_def by blast
    with ne have "0 < scan False p" by (rule scan_pos)
    with sc(1) ne show False by simp
  qed
  with sc(2) show ?thesis by simp
qed

section \<open>The matcher and the glob semantics\<close>










subsection \<open>matchChunk and scanChunk on patterns without class and escape\<close>

















subsection \<open>The relation, star by star and chunk by chunk\<close>






subsection \<open>The star loop finds the leftmost fit\<close>









subsection \<open>Match decides the relation\<close>




section \<open>Point operations\<close>

text \<open>
  C1. For every key \<open>k\<close>, value \<open>v\<close> and prior store state, after \<open>Set(k, v)\<close> the
  operation \<open>Get(k)\<close> returns the record \<open>{k, v}\<close> with no error.
\<close>

theorem Get_after_Set:
  "Get (Set s k v) k = (\<lparr>Key = k, Value = v\<rparr>, None)"
  by (simp add: Get_def Set_def)

lemma Get_Set_other: "k' \<noteq> k \<Longrightarrow> Get (Set s k v) k' = Get s k'"
  by (simp add: Get_def Set_def)

text \<open>
  C7. For every key \<open>k\<close> and prior store state, after \<open>Del(k)\<close> the operation \<open>Get(k)\<close>
  fails with ErrNotExist (returning the zero record); \<open>Del\<close> on an absent key leaves
  the store unchanged, and \<open>Del\<close> is idempotent. \<open>Del\<close> has no error result: it is a
  total function from stores to stores.
\<close>

theorem Get_after_Del:
  "Get (Del s k) k = (\<lparr>Key = [], Value = []\<rparr>, Some ErrNotExist)
   \<and> (s k = None \<longrightarrow> Del s k = s)
   \<and> Del (Del s k) k = Del s k"
  by (auto simp: Get_def Del_def)

theorem Get_after_Del_witness:
  "Set New ''a'' ''1'' ''b'' = None
   \<and> Get (Del (Set New ''a'' ''1'') ''b'') ''b'' = (\<lparr>Key = [], Value = []\<rparr>, Some ErrNotExist)
   \<and> Del (Set New ''a'' ''1'') ''b'' = Set New ''a'' ''1''
   \<and> Del (Del (Set New ''a'' ''1'') ''b'') ''b'' = Del (Set New ''a'' ''1'') ''b''"
  using Get_after_Del [of "Set New ''a'' ''1''" "''b''"]
  by (simp add: Set_def New_def Get_def Del_def)

lemma Get_Del_other: "k' \<noteq> k \<Longrightarrow> Get (Del s k) k' = Get s k'"
  by (simp add: Get_def Del_def)

section \<open>The invariant\<close>

lemma store_inv_New: "store_inv New"
  by (simp add: store_inv_def New_def)

lemma store_inv_Set: "store_inv s \<Longrightarrow> store_inv (Set s k v)"
  by (simp add: store_inv_def Set_def)

lemma store_inv_Del: "store_inv s \<Longrightarrow> store_inv (Del s k)"
  by (simp add: store_inv_def Del_def)

lemma reachable_store_inv: "reachable s \<Longrightarrow> store_inv s"
  by (induction rule: reachable.induct)
    (simp_all add: store_inv_New store_inv_Set store_inv_Del)

lemma dom_New: "dom New = {}"
  by (simp add: New_def)

lemma dom_Set: "dom (Set s k v) = insert k (dom s)"
  by (auto simp: Set_def)

lemma dom_Del: "dom (Del s k) = dom s - {k}"
  by (auto simp: Del_def)

lemma reachable_finite: "reachable s \<Longrightarrow> finite (dom s)"
  by (induction rule: reachable.induct) (simp_all add: dom_New dom_Set dom_Del)

text \<open>
  C9. The invariant \<open>map[k].key == k\<close> holds in the empty store of \<open>New()\<close> and is
  preserved by every \<open>Set\<close> and every \<open>Del\<close> (the other operations do not change the
  store); hence it holds in every state reachable from \<open>New()\<close>.
\<close>

theorem invariant_preserved:
  "store_inv New
   \<and> (store_inv s \<longrightarrow> store_inv (Set s k v))
   \<and> (store_inv s \<longrightarrow> store_inv (Del s k))
   \<and> (reachable s \<longrightarrow> store_inv s)"
  by (simp add: store_inv_New store_inv_Set store_inv_Del reachable_store_inv)

theorem invariant_preserved_witness:
  "store_inv New
   \<and> store_inv (Set New ''/a'' ''1'')
   \<and> store_inv (Del New ''/a'')
   \<and> reachable (Del (Set New ''/a'' ''1'') ''/b'')
   \<and> store_inv (Del (Set New ''/a'' ''1'') ''/b'')"
proof -
  have r: "reachable (Del (Set New ''/a'' ''1'') ''/b'')"
    by (intro reachable.intros)
  show ?thesis
    using invariant_preserved [of New "''/a''" "''1''"]
      invariant_preserved [of "Del (Set New ''/a'' ''1'') ''/b''" "''/a''" "''1''"] r
    by simp
qed

section \<open>Pattern queries\<close>

subsection \<open>The loop over the map\<close>

lemma set_range_map: "set (range_map s order) = {kv. \<exists>k\<in>set order. s k = Some kv}"
  by (induction order) (auto split: option.splits)

lemma range_map_ran: "range_order s order \<Longrightarrow> set (range_map s order) = ran s"
  by (auto simp: set_range_map range_order_def ran_def dom_def)

lemma range_order_exists: "reachable s \<Longrightarrow> \<exists>order. range_order s order"
  unfolding range_order_def
  using finite_distinct_list [OF reachable_finite] by (metis (no_types))

lemma keys_range_map:
  "store_inv s \<Longrightarrow> map Key (range_map s order) = filter (\<lambda>k. k \<in> dom s) order"
  by (induction order) (auto simp: store_inv_def split: option.splits)

lemma distinct_keys_range_map:
  "store_inv s \<Longrightarrow> range_order s order \<Longrightarrow> distinct (map Key (range_map s order))"
  by (simp add: keys_range_map range_order_def)

text \<open>The scan stops at the first entry on which the matcher reports an error.\<close>

lemma GetAll_loop_aborts:
  "snd (Match pattern (Key kv)) = Some e \<Longrightarrow> GetAll_loop pattern (kv # kvs) ks = Inl e"
  by (cases "Match pattern (Key kv)") simp

lemma GetAll_loop_no_error:
  "\<forall>kv\<in>set kvs. snd (Match pattern (Key kv)) = None \<Longrightarrow>
   GetAll_loop pattern kvs ks = Inr (ks @ filter (\<lambda>kv. fst (Match pattern (Key kv))) kvs)"
  by (induction kvs arbitrary: ks) (auto split: prod.splits option.splits)

lemma GetAll_loop_error:
  "\<exists>kv\<in>set kvs. snd (Match pattern (Key kv)) \<noteq> None \<Longrightarrow>
   GetAll_loop pattern kvs ks = Inl ErrBadPattern"
proof (induction kvs arbitrary: ks)
  case Nil
  then show ?case by simp
next
  case (Cons kv kvs)
  show ?case
  proof (cases "Match pattern (Key kv)")
    case (Pair m err)
    show ?thesis
    proof (cases err)
      case None
      with Pair Cons.prems have "\<exists>kv\<in>set kvs. snd (Match pattern (Key kv)) \<noteq> None"
        by auto
      with Cons.IH Pair None show ?thesis by simp
    next
      case (Some e)
      with Pair Match_error have "e = ErrBadPattern" by blast
      with Pair Some show ?thesis by simp
    qed
  qed
qed

lemma GetAll_cases:
  assumes "range_order s order"
  shows "GetAll s order pattern =
     (if \<exists>kv\<in>ran s. snd (Match pattern (Key kv)) \<noteq> None then (None, Some ErrBadPattern)
      else if \<forall>kv\<in>ran s. \<not> fst (Match pattern (Key kv)) then (None, Some ErrNoMatch)
      else (Some (sort_Sort (filter (\<lambda>kv. fst (Match pattern (Key kv))) (range_map s order))),
            None))"
proof (cases "\<exists>kv\<in>ran s. snd (Match pattern (Key kv)) \<noteq> None")
  case True
  then have "\<exists>kv\<in>set (range_map s order). snd (Match pattern (Key kv)) \<noteq> None"
    using range_map_ran [OF assms] by simp
  from GetAll_loop_error [OF this] True show ?thesis
    by (simp add: GetAll_def)
next
  case False
  then have "\<forall>kv\<in>set (range_map s order). snd (Match pattern (Key kv)) = None"
    using range_map_ran [OF assms] by simp
  from GetAll_loop_no_error [OF this, of "[]"] False range_map_ran [OF assms] show ?thesis
    by (auto simp: GetAll_def filter_empty_conv)
qed

lemma sorted_by_key_unique:
  assumes "sorted (map Key xs)" "distinct (map Key xs)"
    and "sorted (map Key ys)" "distinct (map Key ys)"
    and "set xs = set ys"
  shows "xs = ys"
proof -
  from assms(2) have "inj_on Key (set xs)"
    by (simp add: distinct_map)
  with assms(5) have "inj_on Key (set xs \<union> set ys)"
    by simp
  with assms show ?thesis
    by (intro map_sorted_distinct_set_unique [of Key xs ys])
qed

lemma distinct_keys_sort_Sort:
  "distinct (map Key xs) \<Longrightarrow> distinct (map Key (sort_Sort xs))"
  by (simp add: sort_Sort_def distinct_map)

lemma sorted_keys_sort_Sort: "sorted (map Key (sort_Sort xs))"
  by (simp add: sort_Sort_def)

lemma set_sort_Sort: "set (sort_Sort xs) = set xs"
  by (simp add: sort_Sort_def)

lemma GetAll_order_independent:
  assumes "store_inv s" and "range_order s order" and "range_order s order'"
  shows "GetAll s order pattern = GetAll s order' pattern"
proof -
  let ?P = "\<lambda>kv. fst (Match pattern (Key kv))"
  have d: "distinct (map Key (sort_Sort (filter ?P (range_map s ord))))"
    if "range_order s ord" for ord
    using distinct_keys_range_map [OF assms(1) that]
    by (intro distinct_keys_sort_Sort) (simp add: distinct_map_filter)
  have "sort_Sort (filter ?P (range_map s order)) = sort_Sort (filter ?P (range_map s order'))"
  proof (rule sorted_by_key_unique)
    show "set (sort_Sort (filter ?P (range_map s order)))
            = set (sort_Sort (filter ?P (range_map s order')))"
      using assms by (simp add: set_sort_Sort range_map_ran)
  qed (simp_all add: sorted_keys_sort_Sort d assms)
  with assms show ?thesis
    by (simp add: GetAll_cases)
qed

subsection \<open>GetAll\<close>


definition store3 :: store where
  "store3 = Set (Set (Set New ''/a/2'' ''two'') ''/a/1'' ''one'') ''/a/3'' ''three''"

definition order3 :: "string list" where
  "order3 = [''/a/3'', ''/a/1'', ''/a/2'']"

lemma range_order_store3: "range_order store3 order3"
  by (auto simp: range_order_def store3_def order3_def dom_Set dom_New)

lemma store_inv_store3: "store_inv store3"
  unfolding store3_def by (intro store_inv_Set store_inv_New)

lemma GetAll_store3:
  "GetAll store3 order3 ''/a/*'' =
     (Some [\<lparr>Key = ''/a/1'', Value = ''one''\<rparr>, \<lparr>Key = ''/a/2'', Value = ''two''\<rparr>,
            \<lparr>Key = ''/a/3'', Value = ''three''\<rparr>], None)"
  by code_simp









text \<open>
  The wildcards do not cross the separator: a lone star accepts exactly the names
  without \<open>/\<close>.
\<close>

lemma Match_star: "Match ''*'' name = (CHR ''/'' \<notin> set name, None)"
proof -
  have "scanChunk ''*'' = (True, [], [])"
    by (simp add: scanChunk_def)
  then show ?thesis
    by (simp add: Match_next Match_step_def Separator_def)
qed

lemma Match_examples:
  "Match ''/a/*'' ''/a/b'' = (True, None)"
  "Match ''/a/*'' ''/a/b/c'' = (False, None)"
  "Match ''/a/?'' ''/a/b'' = (True, None)"
  "Match ''/a?b'' ''/a/b'' = (False, None)"
  "Match ''/a/[a-c]'' ''/a/b'' = (True, None)"
  "Match ''/a/[^a-c]'' ''/a/b'' = (False, None)"
  by code_simp+

text \<open>
  A star skips bytes, while \<open>?\<close> and a class read one UTF-8 character: the key of
  the single character U+20AC (three bytes) is accepted by \<open>?\<close> and by \<open>*??\<close>.
\<close>

lemma Match_star_skips_bytes:
  "Match ''*??'' [CHR 0xE2, CHR 0x82, CHR 0xAC] = (True, None)"
  "Match ''?'' [CHR 0xE2, CHR 0x82, CHR 0xAC] = (True, None)"
  by code_simp+








subsection \<open>GetAllValues\<close>

text \<open>
  C8. \<open>GetAllValues(pattern)\<close> fails exactly when \<open>GetAll(pattern)\<close> fails, with the
  same error; on failure it returns the allocated empty slice (not nil) with the
  error; on success it returns the values of the records of \<open>GetAll\<close>, in the same
  order.
\<close>

theorem GetAllValues_follows_GetAll:
  "snd (GetAllValues s order pattern) = snd (GetAll s order pattern)
   \<and> (snd (GetAll s order pattern) \<noteq> None \<longrightarrow> fst (GetAllValues s order pattern) = Some [])
   \<and> (snd (GetAll s order pattern) = None \<longrightarrow>
        (\<exists>ks. fst (GetAll s order pattern) = Some ks
           \<and> fst (GetAllValues s order pattern) = Some (map Value ks)))"
  by (auto simp: GetAllValues_def GetAll_def split: sum.splits prod.splits option.splits)

theorem GetAllValues_follows_GetAll_witness:
  "snd (GetAll store3 order3 ''/a/*'') = None
   \<and> fst (GetAllValues store3 order3 ''/a/*'') = Some [''one'', ''two'', ''three'']
   \<and> snd (GetAll store3 order3 ''/b/*'') = Some ErrNoMatch
   \<and> GetAllValues store3 order3 ''/b/*'' = (Some [], Some ErrNoMatch)"
proof -
  have nomatch: "GetAll store3 order3 ''/b/*'' = (None, Some ErrNoMatch)"
    by code_simp
  from GetAllValues_follows_GetAll [of store3 order3 "''/a/*''"]
    GetAllValues_follows_GetAll [of store3 order3 "''/b/*''"] nomatch
  show ?thesis
    by (auto simp: GetAll_store3 prod_eq_iff)
qed

section \<open>Hierarchical listing\<close>

text \<open>
  The first segment that \<open>List\<close> computes for a key with prefix \<open>path\<close>: what
  follows the prefix and one more byte, up to the next separator.
\<close>

definition remainder :: "string \<Rightarrow> string \<Rightarrow> string" where
  "remainder path key = drop (Suc (length path)) key"

definition first_segment :: "string \<Rightarrow> string \<Rightarrow> string" where
  "first_segment path key = takeWhile (\<lambda>c. c \<noteq> CHR ''/'') (remainder path key)"

lemma hd_SplitN_2: "hd (SplitN_2 s) = takeWhile (\<lambda>c. c \<noteq> CHR ''/'') s"
proof (cases "CHR ''/'' \<in> set s")
  case True
  then show ?thesis by (simp add: SplitN_2_def)
next
  case False
  then show ?thesis
    by (auto simp: SplitN_2_def intro!: takeWhile_eq_all_conv [THEN iffD2, symmetric])
qed

lemma length_SplitN_2: "length (SplitN_2 s) < 2 \<longleftrightarrow> CHR ''/'' \<notin> set s"
  by (simp add: SplitN_2_def)

lemma HasPrefix_self: "HasPrefix path path"
  by (simp add: HasPrefix_def)

lemma slice_after_prefix:
  assumes "HasPrefix key path"
  shows "slice_from_1 (TrimPrefix key path) =
     (if key = path then Inl SliceBoundsOutOfRange else Inr (remainder path key))"
proof (cases "key = path")
  case True
  then show ?thesis
    by (simp add: slice_from_1_def TrimPrefix_def HasPrefix_self)
next
  case False
  from assms have "length path \<le> length key" "take (length path) key = path"
    by (simp_all add: HasPrefix_def)
  with False have "length path < length key"
    by (metis le_neq_implies_less take_all_iff order_refl)
  with assms False show ?thesis
    by (simp add: slice_from_1_def TrimPrefix_def remainder_def)
qed

text \<open>
  The keys that contribute to \<open>List(path)\<close> and to \<open>ListDir(path)\<close>: those with the
  literal prefix \<open>path\<close>, and among them those whose remainder has a further
  separator.
\<close>

definition under :: "string \<Rightarrow> KVPair \<Rightarrow> bool" where
  "under path kv = HasPrefix (Key kv) path"

definition nested :: "string \<Rightarrow> KVPair \<Rightarrow> bool" where
  "nested path kv = (HasPrefix (Key kv) path \<and> CHR ''/'' \<in> set (remainder path (Key kv)))"

lemma List_loop_result:
  "List_loop path kvs m =
     (if \<exists>kv\<in>set kvs. Key kv = path then Inl SliceBoundsOutOfRange
      else Inr (m \<union> (\<lambda>kv. first_segment path (Key kv)) ` set (filter (under path) kvs)))"
proof (induction kvs arbitrary: m)
  case Nil
  show ?case by simp
next
  case (Cons kv kvs)
  show ?case
  proof (cases "HasPrefix (Key kv) path")
    case False
    with HasPrefix_self [of path] have "Key kv \<noteq> path" by auto
    with False show ?thesis
      by (simp add: Cons.IH under_def)
  next
    case True
    show ?thesis
    proof (cases "Key kv = path")
      case eq: True
      with True show ?thesis
        by (simp add: slice_after_prefix)
    next
      case neq: False
      with True show ?thesis
        by (simp add: slice_after_prefix hd_SplitN_2 first_segment_def [symmetric]
            Cons.IH under_def)
    qed
  qed
qed

lemma ListDir_loop_result:
  "ListDir_loop path kvs m =
     (if \<exists>kv\<in>set kvs. Key kv = path then Inl SliceBoundsOutOfRange
      else Inr (m \<union> (\<lambda>kv. first_segment path (Key kv)) ` set (filter (nested path) kvs)))"
proof (induction kvs arbitrary: m)
  case Nil
  show ?case by simp
next
  case (Cons kv kvs)
  show ?case
  proof (cases "HasPrefix (Key kv) path")
    case False
    with HasPrefix_self [of path] have "Key kv \<noteq> path" by auto
    with False show ?thesis
      by (simp add: Cons.IH nested_def)
  next
    case True
    show ?thesis
    proof (cases "Key kv = path")
      case eq: True
      with True show ?thesis
        by (simp add: slice_after_prefix)
    next
      case neq: False
      with True show ?thesis
        by (simp add: slice_after_prefix hd_SplitN_2 length_SplitN_2 Let_def
            first_segment_def [symmetric] Cons.IH nested_def)
    qed
  qed
qed

lemma sort_Strings_sorted_list: "sort_Strings (sorted_list_of_set m) = sorted_list_of_set m"
  by (simp add: sort_Strings_def sorted_sort_id)

text \<open>
  In whatever order the keys of the local map are appended to \<open>vs\<close>, sorting gives
  the sorted list of the set.
\<close>

lemma sort_Strings_any_order:
  "distinct vs \<Longrightarrow> set vs = m \<Longrightarrow> sort_Strings vs = sorted_list_of_set m"
  unfolding sort_Strings_def
  by (metis sorted_list_of_set_sort_remdups distinct_remdups_id)

text \<open>The set of first segments under \<open>path\<close>, and those that have a further segment.\<close>

definition segments :: "store \<Rightarrow> string \<Rightarrow> string set" where
  "segments s path = (\<lambda>kv. first_segment path (Key kv)) ` {kv \<in> ran s. under path kv}"

definition dir_segments :: "store \<Rightarrow> string \<Rightarrow> string set" where
  "dir_segments s path = (\<lambda>kv. first_segment path (Key kv)) ` {kv \<in> ran s. nested path kv}"

lemma List_result:
  assumes "range_order s order"
  shows "List s order path =
     (if \<exists>kv\<in>ran s. Key kv = path then Inl SliceBoundsOutOfRange
      else Inr (sorted_list_of_set (segments s path)))"
proof -
  have "set (filter (under path) (range_map s order)) = {kv \<in> ran s. under path kv}"
    using range_map_ran [OF assms] by auto
  then show ?thesis
    using range_map_ran [OF assms]
    by (simp add: List_def List_loop_result sort_Strings_sorted_list segments_def)
qed

lemma ListDir_result:
  assumes "range_order s order"
  shows "ListDir s order path =
     (if \<exists>kv\<in>ran s. Key kv = path then Inl SliceBoundsOutOfRange
      else Inr (sorted_list_of_set (dir_segments s path)))"
proof -
  have "set (filter (nested path) (range_map s order)) = {kv \<in> ran s. nested path kv}"
    using range_map_ran [OF assms] by auto
  then show ?thesis
    using range_map_ran [OF assms]
    by (simp add: ListDir_def ListDir_loop_result sort_Strings_sorted_list dir_segments_def)
qed

lemma finite_ran_range_order: "range_order s order \<Longrightarrow> finite (ran s)"
  using range_map_ran [of s order] by (metis List.finite_set)

lemma finite_segments: "range_order s order \<Longrightarrow> finite (segments s path)"
  by (drule finite_ran_range_order) (simp add: segments_def)

lemma finite_dir_segments: "range_order s order \<Longrightarrow> finite (dir_segments s path)"
  by (drule finite_ran_range_order) (simp add: dir_segments_def)

lemma dir_segments_subset: "dir_segments s path \<subseteq> segments s path"
  by (auto simp: dir_segments_def segments_def nested_def under_def)

text \<open>
  Where no stored key equals \<open>path\<close>, \<open>List\<close> returns the distinct first segments in
  ascending order, and \<open>ListDir\<close> those of them that some key with a further
  separator contributes; with no key under \<open>path\<close> both return the empty list.
\<close>

lemma List_without_exact_key:
  assumes "range_order s order" and "\<forall>kv\<in>ran s. Key kv \<noteq> path"
  shows "\<exists>vs. List s order path = Inr vs \<and> set vs = segments s path
           \<and> sorted vs \<and> distinct vs"
  using assms finite_segments [OF assms(1), of path]
  by (simp add: List_result)

lemma ListDir_without_exact_key:
  assumes "range_order s order" and "\<forall>kv\<in>ran s. Key kv \<noteq> path"
  shows "\<exists>vs ws. ListDir s order path = Inr vs \<and> List s order path = Inr ws
           \<and> set vs = dir_segments s path \<and> set vs \<subseteq> set ws
           \<and> sorted vs \<and> distinct vs"
  using assms finite_segments [OF assms(1), of path] finite_dir_segments [OF assms(1), of path]
    dir_segments_subset [of s path]
  by (simp add: List_result ListDir_result)

lemma List_no_prefix:
  assumes "range_order s order" and "\<forall>kv\<in>ran s. \<not> HasPrefix (Key kv) path"
  shows "List s order path = Inr [] \<and> ListDir s order path = Inr []"
proof -
  from assms(2) HasPrefix_self [of path] have "\<forall>kv\<in>ran s. Key kv \<noteq> path"
    by auto
  moreover from assms(2) have "segments s path = {}" "dir_segments s path = {}"
    by (auto simp: segments_def dir_segments_def under_def nested_def)
  ultimately show ?thesis
    using assms(1) by (simp add: List_result ListDir_result)
qed

definition app3 :: store where
  "app3 = Set (Set (Set New ''/app/db/host'' ''h'') ''/app/db/port'' ''p'') ''/app/cache/ttl'' ''t''"

definition app3_order :: "string list" where
  "app3_order = [''/app/db/port'', ''/app/cache/ttl'', ''/app/db/host'']"

lemma range_order_app3: "range_order app3 app3_order"
  by (auto simp: range_order_def app3_def app3_order_def dom_Set dom_New)

lemma range_order_app3_exact: "range_order (Set app3 ''/app'' ''x'') (''/app'' # app3_order)"
  by (auto simp: range_order_def app3_def app3_order_def dom_Set dom_New)

lemma List_app3: "List app3 app3_order ''/app'' = Inr [''cache'', ''db'']"
  by code_simp

lemma ListDir_app3: "ListDir app3 app3_order ''/app'' = Inr [''cache'', ''db'']"
  by code_simp

lemma List_standalone:
  "List (Set app3 ''/app/standalone'' ''s'') (''/app/standalone'' # app3_order) ''/app''
     = Inr [''cache'', ''db'', ''standalone'']"
  "ListDir (Set app3 ''/app/standalone'' ''s'') (''/app/standalone'' # app3_order) ''/app''
     = Inr [''cache'', ''db'']"
  by code_simp+

lemma List_literal_prefix:
  "List (Set New ''/ab/c'' ''1'') [''/ab/c''] ''/a'' = Inr [[]]"
  by code_simp

text \<open>
  C5. \<open>List(path)\<close> and \<open>ListDir(path)\<close> are meant to have no failure mode, and with no
  key under \<open>path\<close> they return the empty list (\<open>List_no_prefix\<close>). But when a stored
  key equals \<open>path\<close> the remainder after the prefix is empty and \<open>strippedKey[1:]\<close>
  panics: after \<open>Set("/app", "x")\<close> both \<open>List("/app")\<close> and \<open>ListDir("/app")\<close>
  fail.
\<close>

theorem List_ListDir_fail:
  "range_order (Set New ''/app'' ''x'') [''/app'']
   \<and> List (Set New ''/app'' ''x'') [''/app''] ''/app'' = Inl SliceBoundsOutOfRange
   \<and> ListDir (Set New ''/app'' ''x'') [''/app''] ''/app'' = Inl SliceBoundsOutOfRange"
proof -
  have "range_order (Set New ''/app'' ''x'') [''/app'']"
    by (simp add: range_order_def dom_Set dom_New)
  moreover have "List (Set New ''/app'' ''x'') [''/app''] ''/app'' = Inl SliceBoundsOutOfRange"
    by code_simp
  moreover have "ListDir (Set New ''/app'' ''x'') [''/app''] ''/app'' = Inl SliceBoundsOutOfRange"
    by code_simp
  ultimately show ?thesis by simp
qed

text \<open>
  C4. \<open>List(path)\<close> returns the sorted distinct first segments of the keys under
  \<open>path\<close> in every store where no key equals \<open>path\<close> (\<open>List_without_exact_key\<close>); in
  the store of the example with the further key \<open>/app\<close> it panics instead of
  returning them.
\<close>

theorem List_exact_key_panics:
  "range_order (Set app3 ''/app'' ''x'') (''/app'' # app3_order)
   \<and> List app3 app3_order ''/app'' = Inr [''cache'', ''db'']
   \<and> List (Set app3 ''/app'' ''x'') (''/app'' # app3_order) ''/app''
       = Inl SliceBoundsOutOfRange"
proof -
  have "List (Set app3 ''/app'' ''x'') (''/app'' # app3_order) ''/app''
          = Inl SliceBoundsOutOfRange"
    by code_simp
  with range_order_app3_exact List_app3 show ?thesis by simp
qed

text \<open>
  C6. \<open>ListDir(path)\<close> returns the elements of \<open>List(path)\<close> that a key with a further
  separator contributes in every store where no key equals \<open>path\<close>
  (\<open>ListDir_without_exact_key\<close>, \<open>List_standalone\<close>); with the further key \<open>/app\<close> it
  panics.
\<close>

theorem ListDir_exact_key_panics:
  "range_order (Set app3 ''/app'' ''x'') (''/app'' # app3_order)
   \<and> ListDir app3 app3_order ''/app'' = Inr [''cache'', ''db'']
   \<and> ListDir (Set app3 ''/app'' ''x'') (''/app'' # app3_order) ''/app''
       = Inl SliceBoundsOutOfRange"
proof -
  have "ListDir (Set app3 ''/app'' ''x'') (''/app'' # app3_order) ''/app''
          = Inl SliceBoundsOutOfRange"
    by code_simp
  with range_order_app3_exact ListDir_app3 show ?thesis by simp
qed

section \<open>Concurrent calls\<close>

text \<open>
  \<open>Store\<close> embeds a \<open>sync.RWMutex\<close> by value and every method has a value receiver
  (\<open>func (s Store) Set\<close>, \<open>func (s Store) Get\<close>, ...). A call therefore works on a
  copy of the \<open>Store\<close>: the copy holds the same map (a Go map is a reference) and a
  mutex of its own, copied from the caller's. The model below interleaves the steps
  of concurrent calls: each call is a frame with its own mutex, the map is shared.

  The state of a \<open>sync.RWMutex\<close>: whether it is held for writing, and by how many
  readers. \<open>Lock\<close> and \<open>RLock\<close> return \<open>None\<close> when the caller has to wait.
\<close>

record RWMutex =
  writer :: bool
  readers :: nat

definition Lock :: "RWMutex \<Rightarrow> RWMutex option" where
  "Lock l = (if writer l \<or> 0 < readers l then None else Some (l\<lparr>writer := True\<rparr>))"

definition RLock :: "RWMutex \<Rightarrow> RWMutex option" where
  "RLock l = (if writer l then None else Some (l\<lparr>readers := readers l + 1\<rparr>))"

definition Unlock :: "RWMutex \<Rightarrow> RWMutex" where
  "Unlock l = l\<lparr>writer := False\<rparr>"

definition RUnlock :: "RWMutex \<Rightarrow> RWMutex" where
  "RUnlock l = l\<lparr>readers := readers l - 1\<rparr>"

text \<open>
  The calls in flight. \<open>Set\<close> and \<open>Del\<close> take the write lock, \<open>Get\<close> the read lock;
  a frame is at \<open>Entered\<close> before its lock, \<open>Holding\<close> with the lock taken and the map
  access next, \<open>Accessed\<close> after the access, \<open>Returned\<close> after the unlock.
\<close>

datatype call = Call_Set string string | Call_Del string | Call_Get string

fun writes :: "call \<Rightarrow> bool" where
  "writes (Call_Set key val) = True"
| "writes (Call_Del key) = True"
| "writes (Call_Get key) = False"

datatype pc = Entered | Holding | Accessed | Returned

record frame =
  frame_call :: call
  frame_mu :: RWMutex
  frame_pc :: pc
  frame_result :: "(KVPair \<times> error option) option"

record world =
  caller_mu :: RWMutex
  shared_m :: store
  frames :: "frame list"

definition acquire :: "call \<Rightarrow> RWMutex \<Rightarrow> RWMutex option" where
  "acquire c l = (if writes c then Lock l else RLock l)"

definition release :: "call \<Rightarrow> RWMutex \<Rightarrow> RWMutex" where
  "release c l = (if writes c then Unlock l else RUnlock l)"

fun access :: "call \<Rightarrow> store \<Rightarrow> store \<times> (KVPair \<times> error option) option" where
  "access (Call_Set key val) m = (Set m key val, None)"
| "access (Call_Del key) m = (Del m key, None)"
| "access (Call_Get key) m = (m, Some (Get m key))"

text \<open>
  A step of the system: a new call copies the caller's \<open>Store\<close>, mutex included
  (\<open>invoke\<close>); a frame locks its own mutex, accesses the shared map, unlocks.
\<close>

inductive step :: "world \<Rightarrow> world \<Rightarrow> bool" where
  invoke:
    "step w (w\<lparr>frames := frames w @
        [\<lparr>frame_call = c, frame_mu = caller_mu w, frame_pc = Entered, frame_result = None\<rparr>]\<rparr>)"
| lock:
    "i < length (frames w) \<Longrightarrow> f = frames w ! i \<Longrightarrow> frame_pc f = Entered \<Longrightarrow>
     acquire (frame_call f) (frame_mu f) = Some l \<Longrightarrow>
     step w (w\<lparr>frames := (frames w)[i := f\<lparr>frame_mu := l, frame_pc := Holding\<rparr>]\<rparr>)"
| touch:
    "i < length (frames w) \<Longrightarrow> f = frames w ! i \<Longrightarrow> frame_pc f = Holding \<Longrightarrow>
     access (frame_call f) (shared_m w) = (m', r) \<Longrightarrow>
     step w (w\<lparr>shared_m := m',
              frames := (frames w)[i := f\<lparr>frame_pc := Accessed, frame_result := r\<rparr>]\<rparr>)"
| unlock:
    "i < length (frames w) \<Longrightarrow> f = frames w ! i \<Longrightarrow> frame_pc f = Accessed \<Longrightarrow>
     step w (w\<lparr>frames := (frames w)[i := f\<lparr>frame_mu := release (frame_call f) (frame_mu f),
                                          frame_pc := Returned\<rparr>]\<rparr>)"

text \<open>
  The store of \<open>New()\<close>. A data race: a frame that writes the map and another frame
  both hold their lock, each with its map access next and nothing ordering the two.
\<close>

definition initial :: world where
  "initial = \<lparr>caller_mu = \<lparr>writer = False, readers = 0\<rparr>, shared_m = New, frames = []\<rparr>"

definition race :: "world \<Rightarrow> bool" where
  "race w = (\<exists>i j. i < length (frames w) \<and> j < length (frames w) \<and> i \<noteq> j
               \<and> frame_pc (frames w ! i) = Holding \<and> writes (frame_call (frames w ! i))
               \<and> frame_pc (frames w ! j) = Holding)"

definition racing :: world where
  "racing =
     \<lparr>caller_mu = \<lparr>writer = False, readers = 0\<rparr>, shared_m = New,
      frames =
        [\<lparr>frame_call = Call_Set ''k'' ''v'', frame_mu = \<lparr>writer = True, readers = 0\<rparr>,
          frame_pc = Holding, frame_result = None\<rparr>,
         \<lparr>frame_call = Call_Get ''k'', frame_mu = \<lparr>writer = False, readers = 1\<rparr>,
          frame_pc = Holding, frame_result = None\<rparr>]\<rparr>"

lemma race_racing: "race racing"
  unfolding race_def racing_def
  by (rule exI [of _ 0], rule exI [of _ 1]) simp

lemma reach_racing: "rtranclp step initial racing"
proof -
  let ?mu0 = "\<lparr>writer = False, readers = 0\<rparr>"
  let ?f0 = "\<lparr>frame_call = Call_Set ''k'' ''v'', frame_mu = ?mu0,
              frame_pc = Entered, frame_result = None\<rparr>"
  let ?f1 = "\<lparr>frame_call = Call_Get ''k'', frame_mu = ?mu0,
              frame_pc = Entered, frame_result = None\<rparr>"
  let ?w1 = "initial\<lparr>frames := [?f0]\<rparr>"
  let ?w2 = "initial\<lparr>frames := [?f0, ?f1]\<rparr>"
  let ?w3 = "initial\<lparr>frames := [?f0\<lparr>frame_mu := \<lparr>writer = True, readers = 0\<rparr>,
                                       frame_pc := Holding\<rparr>, ?f1]\<rparr>"
  have s1: "step initial ?w1"
    using invoke [of initial "Call_Set ''k'' ''v''"] by (simp add: initial_def)
  have s2: "step ?w1 ?w2"
    using invoke [of ?w1 "Call_Get ''k''"] by (simp add: initial_def)
  have s3: "step ?w2 ?w3"
    using lock [of 0 ?w2 ?f0 "\<lparr>writer = True, readers = 0\<rparr>"]
    by (simp add: initial_def acquire_def Lock_def)
  have s4: "step ?w3 racing"
    using lock [of 1 ?w3 ?f1 "\<lparr>writer = False, readers = 1\<rparr>"]
    by (simp add: initial_def acquire_def RLock_def racing_def)
  from s1 s2 s3 s4 show ?thesis
    by (meson rtranclp.rtrancl_into_rtrancl rtranclp.rtrancl_refl)
qed

text \<open>
  C10. The claim fails: from \<open>New()\<close>, concurrent calls \<open>Set("k", "v")\<close> and
  \<open>Get("k")\<close> reach a state in which the writer and the reader are both inside their
  critical section, because each has locked the mutex of its own copy of the store.
\<close>

theorem value_receivers_race:
  "\<exists>w. rtranclp step initial w \<and> race w"
  using reach_racing race_racing by blast

end
